theory Spec2Isabelle
  imports Main
begin

section \<open>The locust launcher (locust/main.py)\<close>

text \<open>
  A shallow embedding of \<^verbatim>\<open>locust/main.py\<close>: the locustfile resolver
  \<^verbatim>\<open>find_locustfile\<close>, the loader \<^verbatim>\<open>load_locustfile\<close> with its handling of
  \<^verbatim>\<open>sys.path\<close>, the filter \<^verbatim>\<open>is_locust\<close> and the launcher \<^verbatim>\<open>main\<close>.
  Python strings are \<^typ>\<open>string\<close>; the interpreter's services the module calls
  (\<^verbatim>\<open>os.path\<close>, \<^verbatim>\<open>__import__\<close>, \<^verbatim>\<open>gevent\<close>) are either written out after the
  standard library's POSIX source or taken as parameters.
\<close>

subsection \<open>Python values and exceptions\<close>

datatype exn =
    ImportError string
  | IndexError
  | ValueError
  | OtherError string

text \<open>
  A class object is known by an identifier that no other class object has (its
  module and name, such as \<^verbatim>\<open>core.Locust\<close>) and by its method resolution order:
  the identifiers of the classes it descends from, itself first. Two classes of the
  same name in different modules are different values. Anything else a module may
  declare (functions, numbers, imported modules) is \<open>PyObject\<close>.
\<close>

datatype pyval =
    PyClass string "string list"
  | PyObject string

record pymodule =
  module_doc :: "string option"
  module_vars :: "(string \<times> pyval) list"

subsection \<open>String and list primitives\<close>

definition startswith :: "string \<Rightarrow> string \<Rightarrow> bool" where
  "startswith s pre = (take (length pre) s = pre)"

definition endswith :: "string \<Rightarrow> string \<Rightarrow> bool" where
  "endswith s suf = (drop (length s - length suf) s = suf)"

text \<open>\<^verbatim>\<open>s.split(sep)\<close> for a one-character separator; the result is never empty.\<close>

fun py_split :: "char \<Rightarrow> string \<Rightarrow> string list" where
  "py_split c [] = [[]]"
| "py_split c (x # xs) =
     (if x = c then [] # py_split c xs
      else (case py_split c xs of
              [] \<Rightarrow> [[x]]
            | w # ws \<Rightarrow> (x # w) # ws))"

text \<open>\<^verbatim>\<open>sep.join(parts)\<close>.\<close>

fun py_join :: "string \<Rightarrow> string list \<Rightarrow> string" where
  "py_join sep [] = []"
| "py_join sep [x] = x"
| "py_join sep (x # y # ys) = x @ sep @ py_join sep (y # ys)"

text \<open>\<^verbatim>\<open>s.rfind(c)\<close>: the last index of \<open>c\<close>, or \<open>-1\<close>.\<close>

definition py_rfind :: "char \<Rightarrow> string \<Rightarrow> int" where
  "py_rfind c s =
     (if c \<in> set s then int (length s) - 1 - int (length (takeWhile (\<lambda>x. x \<noteq> c) (rev s)))
      else - 1)"

definition py_rstrip :: "char \<Rightarrow> string \<Rightarrow> string" where
  "py_rstrip c s = rev (dropWhile (\<lambda>x. x = c) (rev s))"

text \<open>\<^verbatim>\<open>xs.insert(i, x)\<close> for \<open>i \<ge> 0\<close>: past the end it appends.\<close>

definition py_insert :: "nat \<Rightarrow> 'a \<Rightarrow> 'a list \<Rightarrow> 'a list" where
  "py_insert i x xs = take i xs @ [x] @ drop i xs"

text \<open>\<^verbatim>\<open>del xs[i]\<close> for \<open>i \<ge> 0\<close>: IndexError out of range.\<close>

definition py_del :: "nat \<Rightarrow> 'a list \<Rightarrow> exn + 'a list" where
  "py_del i xs = (if i < length xs then Inr (take i xs @ drop (Suc i) xs) else Inl IndexError)"

text \<open>\<^verbatim>\<open>xs.index(x)\<close>: the first position of \<open>x\<close>, ValueError when absent.\<close>

definition py_index :: "'a list \<Rightarrow> 'a \<Rightarrow> exn + nat" where
  "py_index xs x =
     (if x \<in> set xs then Inr (length (takeWhile (\<lambda>y. y \<noteq> x) xs)) else Inl ValueError)"

subsection \<open>The functions of \<^verbatim>\<open>posixpath\<close> the module calls\<close>

definition os_path_isabs :: "string \<Rightarrow> bool" where
  "os_path_isabs s = startswith s ''/''"

text \<open>\<^verbatim>\<open>os.path.join(a, b)\<close> with two arguments.\<close>

definition os_path_join :: "string \<Rightarrow> string \<Rightarrow> string" where
  "os_path_join a b =
     (if startswith b ''/'' then b
      else if a = [] \<or> endswith a ''/'' then a @ b
      else a @ ''/'' @ b)"

text \<open>
  \<^verbatim>\<open>os.path.split(p)\<close>: everything up to the last slash, and what follows it;
  trailing slashes are stripped from the head unless it is all slashes.
\<close>

definition os_path_split :: "string \<Rightarrow> string \<times> string" where
  "os_path_split p =
     (let i = nat (py_rfind CHR ''/'' p + 1);
          head = take i p;
          tail = drop i p
      in (if head \<noteq> [] \<and> head \<noteq> replicate (length head) CHR ''/''
          then py_rstrip CHR ''/'' head else head, tail))"

definition os_path_dirname :: "string \<Rightarrow> string" where
  "os_path_dirname p = fst (os_path_split p)"

text \<open>
  \<^verbatim>\<open>os.path.splitext(p)\<close>: the extension starts at the last dot, when that dot
  follows the last slash and is not one of the leading dots of the file name.
\<close>

definition os_path_splitext :: "string \<Rightarrow> string \<times> string" where
  "os_path_splitext p =
     (let sepIndex = py_rfind CHR ''/'' p;
          dotIndex = py_rfind CHR ''.'' p
      in if dotIndex > sepIndex \<and>
            list_ex (\<lambda>ch. ch \<noteq> CHR ''.'')
              (take (nat (dotIndex - (sepIndex + 1))) (drop (nat (sepIndex + 1)) p))
         then (take (nat dotIndex) p, drop (nat dotIndex) p)
         else (p, []))"

text \<open>One round of the loop of \<^verbatim>\<open>normpath\<close> over the components.\<close>

definition normpath_step :: "nat \<Rightarrow> string list \<Rightarrow> string \<Rightarrow> string list" where
  "normpath_step initial_slashes new_comps cmp =
     (if cmp = [] \<or> cmp = ''.'' then new_comps
      else if cmp \<noteq> ''..'' \<or> (initial_slashes = 0 \<and> new_comps = [])
              \<or> (new_comps \<noteq> [] \<and> last new_comps = ''..'')
      then new_comps @ [cmp]
      else if new_comps \<noteq> [] then butlast new_comps
      else new_comps)"

definition initial_slashes_of :: "string \<Rightarrow> nat" where
  "initial_slashes_of path =
     (if startswith path ''/''
      then (if startswith path ''//'' \<and> \<not> startswith path ''///'' then 2 else 1)
      else 0)"

definition os_path_normpath :: "string \<Rightarrow> string" where
  "os_path_normpath path =
     (if path = [] then ''.''
      else
        let initial_slashes = initial_slashes_of path;
            comps = py_split CHR ''/'' path;
            new_comps = foldl (normpath_step initial_slashes) [] comps;
            path1 = py_join ''/'' new_comps;
            path2 = (if initial_slashes \<noteq> 0
                     then replicate initial_slashes CHR ''/'' @ path1 else path1)
        in if path2 = [] then ''.'' else path2)"

text \<open>
  \<^verbatim>\<open>os.path.abspath(path)\<close>; the first argument is what \<^verbatim>\<open>os.getcwd()\<close> returns.
\<close>

definition os_path_abspath :: "string \<Rightarrow> string \<Rightarrow> string" where
  "os_path_abspath cwd path =
     os_path_normpath (if \<not> os_path_isabs path then os_path_join cwd path else path)"

subsection \<open>The operating system, as the resolver sees it\<close>

text \<open>
  The working directory, the two file tests and the expansion of \<^verbatim>\<open>~\<close> are
  services of the operating system; the resolver is verified for all of them.
\<close>

record os_env =
  getcwd :: string
  path_exists :: "string \<Rightarrow> bool"
  path_isdir :: "string \<Rightarrow> bool"
  expanduser :: "string \<Rightarrow> string"

definition abspath :: "os_env \<Rightarrow> string \<Rightarrow> string" where
  "abspath env path = os_path_abspath (getcwd env) path"

subsection \<open>\<^verbatim>\<open>_is_package\<close> and \<^verbatim>\<open>find_locustfile\<close>\<close>

definition is_package :: "os_env \<Rightarrow> string \<Rightarrow> bool" where
  "is_package env path =
     (path_isdir env path \<and> path_exists env (os_path_join path ''__init__.py''))"

text \<open>
  The branch for a name with path elements: the \<^verbatim>\<open>for\<close> loop over the names,
  falling through to \<^verbatim>\<open>None\<close>.
\<close>

fun find_explicit :: "os_env \<Rightarrow> string list \<Rightarrow> string option" where
  "find_explicit env [] = None"
| "find_explicit env (name # names) =
     (let expanded = expanduser env name
      in if path_exists env expanded \<and> (endswith name ''.py'' \<or> is_package env expanded)
         then Some (abspath env expanded)
         else find_explicit env names)"

text \<open>The inner \<^verbatim>\<open>for\<close> loop of the search branch, in one directory.\<close>

fun find_in_dir :: "os_env \<Rightarrow> string \<Rightarrow> string list \<Rightarrow> string option" where
  "find_in_dir env path [] = None"
| "find_in_dir env path (name # names) =
     (let joined = os_path_join path name
      in if path_exists env joined \<and> (endswith name ''.py'' \<or> is_package env joined)
         then Some (abspath env joined)
         else find_in_dir env path names)"

text \<open>
  The \<^verbatim>\<open>while\<close> loop of the search branch. Nothing in its text bounds the
  number of rounds, so it is a partial function: the outer \<open>None\<close> is a loop that
  does not return, \<open>Some None\<close> is Python's \<^verbatim>\<open>None\<close>.
\<close>

partial_function (option) find_walk :: "os_env \<Rightarrow> string list \<Rightarrow> string \<Rightarrow> string option option" where
  "find_walk env names path =
     (if snd (os_path_split (abspath env path)) \<noteq> []
      then (case find_in_dir env path names of
              Some found \<Rightarrow> Some (Some found)
            | None \<Rightarrow> find_walk env names (os_path_join ''..'' path))
      else Some None)"

declare find_walk.simps [code]

definition find_locustfile :: "os_env \<Rightarrow> string \<Rightarrow> string option option" where
  "find_locustfile env locustfile =
     (let names = [locustfile];
          names = (if \<not> endswith (hd names) ''.py'' then names @ [hd names @ ''.py''] else names)
      in if os_path_dirname (hd names) \<noteq> []
         then Some (find_explicit env names)
         else find_walk env names ''.'')"

subsection \<open>The search order, as a list\<close>

text \<open>
  The order of the search as the specification words it (nearest directory first, in
  each directory the bare name before the suffixed one, the root not searched), to be
  compared with the loop of \<^verbatim>\<open>find_locustfile\<close>.
\<close>

text \<open>
  The value of \<^verbatim>\<open>path\<close> at the start of round \<open>k\<close> of the \<^verbatim>\<open>while\<close> loop:
  \<^verbatim>\<open>'.'\<close>, then \<^verbatim>\<open>'../.'\<close>, \<^verbatim>\<open>'../../.'\<close> and so on.
\<close>

fun climb :: "nat \<Rightarrow> string" where
  "climb 0 = ''.''"
| "climb (Suc k) = os_path_join ''..'' (climb k)"

text \<open>The names tried in each directory: the bare name, then the name with \<^verbatim>\<open>.py\<close>.\<close>

definition candidate_names :: "string \<Rightarrow> string list" where
  "candidate_names requested =
     (if endswith requested ''.py'' then [requested] else [requested, requested @ ''.py''])"

text \<open>
  The directories between the working directory and the root, the working directory
  counted and the root not: one for each component of the absolute working directory.
\<close>

definition search_depth :: "os_env \<Rightarrow> nat" where
  "search_depth env = length (filter (\<lambda>c. c \<noteq> []) (py_split CHR ''/'' (abspath env ''.'')))"

text \<open>
  The candidates \<open>(k, name)\<close>, \<open>k\<close> levels above the working directory: nearest
  directory first, and in each directory the names in their order.
\<close>

definition probe_order :: "os_env \<Rightarrow> string \<Rightarrow> (nat \<times> string) list" where
  "probe_order env requested =
     concat (map (\<lambda>k. map (\<lambda>name. (k, name)) (candidate_names requested)) [0..<search_depth env])"

text \<open>The test the loop applies to a candidate, and the path it returns for it.\<close>

fun accepts :: "os_env \<Rightarrow> nat \<times> string \<Rightarrow> bool" where
  "accepts env (k, name) =
     (path_exists env (os_path_join (climb k) name)
      \<and> (endswith name ''.py'' \<or> is_package env (os_path_join (climb k) name)))"

fun candidate_path :: "os_env \<Rightarrow> nat \<times> string \<Rightarrow> string" where
  "candidate_path env (k, name) = abspath env (os_path_join (climb k) name)"

text \<open>The rounds \<open>ks\<close> of the loop, one after the other.\<close>

fun first_in_levels :: "os_env \<Rightarrow> string list \<Rightarrow> nat list \<Rightarrow> string option" where
  "first_in_levels env names [] = None"
| "first_in_levels env names (k # ks) =
     (case find_in_dir env (climb k) names of
        Some found \<Rightarrow> Some found
      | None \<Rightarrow> first_in_levels env names ks)"

text \<open>
  What \<^verbatim>\<open>normpath\<close> computes for an absolute path: the number of leading slashes it
  keeps and the components it keeps, none of them empty, \<^verbatim>\<open>.\<close> or \<^verbatim>\<open>..\<close>.
\<close>

definition clean :: "string list \<Rightarrow> bool" where
  "clean L = (\<forall>w \<in> set L. w \<noteq> [] \<and> w \<noteq> ''.'' \<and> w \<noteq> ''..'' \<and> CHR ''/'' \<notin> set w)"

definition render :: "nat \<Rightarrow> string list \<Rightarrow> string" where
  "render s L = replicate s CHR ''/'' @ py_join ''/'' L"

definition norm_comps :: "string \<Rightarrow> string list" where
  "norm_comps cwd = foldl (normpath_step (initial_slashes_of cwd)) [] (py_split CHR ''/'' cwd)"

subsection \<open>\<^verbatim>\<open>is_locust\<close>\<close>

text \<open>
  \<^verbatim>\<open>inspect.isclass\<close>, and \<^verbatim>\<open>issubclass(item, base)\<close>: whether the class
  object \<open>base\<close> is one of those in the method resolution order of \<open>item\<close>.
  Python's \<^verbatim>\<open>issubclass\<close> raises TypeError when either argument is not a class;
  \<^verbatim>\<open>is_locust\<close> only reaches it behind \<^verbatim>\<open>isclass(item) and\<close>, with the class
  \<^verbatim>\<open>Locust\<close> as second argument, so the model gives \<open>False\<close> there.
\<close>

fun isclass :: "pyval \<Rightarrow> bool" where
  "isclass (PyClass c mro) = True"
| "isclass (PyObject n) = False"

fun issubclass :: "pyval \<Rightarrow> pyval \<Rightarrow> bool" where
  "issubclass (PyClass c mro) (PyClass b base_mro) = (b \<in> set mro)"
| "issubclass (PyClass c mro) (PyObject n) = False"
| "issubclass (PyObject n) base = False"

text \<open>The base class \<^verbatim>\<open>core.Locust\<close> that the module imports.\<close>

definition Locust :: pyval where
  "Locust = PyClass ''core.Locust'' [''core.Locust'', ''object'']"

text \<open>Line 13 of the module: \<^verbatim>\<open>_internals = []\<close>.\<close>

definition internals :: "pyval list" where
  "internals = []"

fun is_locust :: "string \<times> pyval \<Rightarrow> bool" where
  "is_locust (name, item) =
     (isclass item
      \<and> issubclass item Locust
      \<and> item \<notin> set internals
      \<and> \<not> startswith name ''_'')"

subsection \<open>\<^verbatim>\<open>load_locustfile\<close>\<close>

text \<open>
  \<^verbatim>\<open>__import__\<close> runs the user's file: it reads the search list, returns a module
  or raises, and may leave the search list changed. It is a parameter.
  \<^verbatim>\<open>load_locustfile\<close> takes \<^verbatim>\<open>sys.path\<close> and returns it as it leaves it, next to
  the result or the exception that propagates.
  The dictionary \<^verbatim>\<open>vars(imported)\<close> is the association list \<open>module_vars\<close>
  (one entry per name), and so is the dictionary returned.
\<close>

type_synonym importer = "string list \<Rightarrow> string \<Rightarrow> (exn + pymodule) \<times> string list"

definition load_locustfile ::
  "importer \<Rightarrow> string \<Rightarrow> string list
     \<Rightarrow> (exn + string option \<times> (string \<times> pyval) list) \<times> string list" where
  "load_locustfile import path sys_path =
     (let (directory, locustfile) = os_path_split path
      in case (if directory \<notin> set sys_path
               then Inr (True, None, py_insert 0 directory sys_path)
               else (case py_index sys_path directory of
                       Inl e \<Rightarrow> Inl (e, sys_path)
                     | Inr i \<Rightarrow>
                         if i \<noteq> 0
                         then (case py_del (i + 1) (py_insert 0 directory sys_path) of
                                 Inl e \<Rightarrow> Inl (e, py_insert 0 directory sys_path)
                               | Inr sp \<Rightarrow> Inr (False, Some i, sp))
                         else Inr (False, None, sys_path))) of
           Inl (e, sp) \<Rightarrow> (Inl e, sp)
         | Inr (added_to_path, index, sp1) \<Rightarrow>
             (case import sp1 (fst (os_path_splitext locustfile)) of
                (Inl e, sp2) \<Rightarrow> (Inl e, sp2)
              | (Inr imported, sp2) \<Rightarrow>
                  (case (if added_to_path then py_del 0 sp2 else Inr sp2) of
                     Inl e \<Rightarrow> (Inl e, sp2)
                   | Inr sp3 \<Rightarrow>
                       (case (case index of
                                None \<Rightarrow> Inr sp3
                              | Some i \<Rightarrow> py_del 0 (py_insert (i + 1) directory sp3)) of
                          Inl e \<Rightarrow> (Inl e, sp3)
                        | Inr sp4 \<Rightarrow>
                            (Inr (module_doc imported,
                                  filter is_locust (module_vars imported)), sp4)))))"

subsection \<open>\<^verbatim>\<open>main\<close>\<close>

text \<open>What \<^verbatim>\<open>parse_options\<close> returns: the option values and the positional arguments.\<close>

record options =
  show_version :: bool
  list_commands :: bool
  shortlist :: bool
  print_stats :: bool
  no_web :: bool
  master :: bool
  slave :: bool
  num_clients :: int
  hatch_rate :: int
  redis_host :: string
  redis_port :: int
  hosts :: "string list"
  locustfile :: string

text \<open>
  What the launcher does to the outside, in order: lines printed, the greenlets
  spawned, the runner constructed, the call of \<^verbatim>\<open>gevent.sleep\<close>.
  \<^verbatim>\<open>--list\<close> prints the names of the catalog in the order of the association list.
\<close>

datatype event =
    Print string
  | StderrWrite string
  | SpawnWeb pyval int int
  | NewLocalRunner pyval int int
  | StartHatching
  | SpawnPrintStats
  | NewMasterRunner pyval int int string int
  | NewSlaveRunner pyval int int string int
  | Sleep int

text \<open>
  How the process ends: \<^verbatim>\<open>sys.exit(n)\<close>, an exception nobody catches (the
  interpreter prints the traceback), or a resolver loop that does not return.
\<close>

datatype outcome =
    Exit int
  | Uncaught exn
  | Hangs

text \<open>
  \<^verbatim>\<open>gevent.sleep(100000)\<close> either returns when the seconds have passed or raises
  KeyboardInterrupt.
\<close>

datatype sleep_result = Elapsed | Interrupted

definition main ::
  "os_env \<Rightarrow> importer \<Rightarrow> string list \<Rightarrow> options \<Rightarrow> string list \<Rightarrow> sleep_result
     \<Rightarrow> event list \<times> outcome" where
  "main env import sys_path opts arguments slept =
     (let out0 = [Print []] in
      if show_version opts then (out0 @ [Print ''Locust 0.1''], Exit 0)
      else case find_locustfile env (locustfile opts) of
        None \<Rightarrow> (out0, Hangs)
      | Some found \<Rightarrow>
          if found = None \<or> found = Some []
          then (out0 @ [Print ''Could not find any locustfile!''], Exit 1)
          else case fst (load_locustfile import (the found) sys_path) of
            Inl e \<Rightarrow> (out0, Uncaught e)
          | Inr (docstring, locusts) \<Rightarrow>
              if list_commands opts
              then (out0 @ [Print ''Available Locusts:'']
                      @ map (\<lambda>name. Print (''    '' @ name)) (map fst locusts), Exit 0)
              else case arguments of
                [] \<Rightarrow> (out0, Uncaught IndexError)
              | arg0 # _ \<Rightarrow>
                  (case map_of locusts arg0 of
                     None \<Rightarrow> (out0 @ [StderrWrite (''Unknown Locust: '' @ arg0 @ [CHR 0x0A])], Exit 1)
                   | Some locust_class \<Rightarrow>
                       (let web = (if \<not> no_web opts \<and> \<not> slave opts
                                   then [SpawnWeb locust_class (hatch_rate opts) (num_clients opts)]
                                   else []);
                            runner =
                              (if \<not> master opts \<and> \<not> slave opts
                               then [NewLocalRunner locust_class (hatch_rate opts) (num_clients opts)]
                                    @ (if no_web opts then [StartHatching] else [])
                                    @ (if print_stats opts \<or> no_web opts then [SpawnPrintStats] else [])
                               else if master opts
                               then [NewMasterRunner locust_class (hatch_rate opts) (num_clients opts)
                                       (redis_host opts) (redis_port opts)]
                               else if slave opts
                               then [NewSlaveRunner locust_class (hatch_rate opts) (num_clients opts)
                                       (redis_host opts) (redis_port opts)]
                               else []);
                            bye = (case slept of
                                     Interrupted \<Rightarrow> [Print [], Print ''Exiting, bye..'', Print []]
                                   | Elapsed \<Rightarrow> [])
                        in (out0 @ web @ runner @ [Sleep 100000] @ bye, Exit 0))))"

subsection \<open>A small world to run the launcher in\<close>

text \<open>
  The working directory is \<^verbatim>\<open>/proj/tests\<close>; \<^verbatim>\<open>/proj/tasks.py\<close> exists and
  \<^verbatim>\<open>/proj/tests/tasks.py\<close> does not. Relative paths are resolved against the
  working directory. The file declares \<^verbatim>\<open>Foo\<close> and \<^verbatim>\<open>_Bar\<close>, two subclasses of
  \<^verbatim>\<open>Locust\<close>, and \<^verbatim>\<open>Base\<close>, which is \<^verbatim>\<open>Locust\<close> itself.
\<close>

definition demo_env :: os_env where
  "demo_env =
     \<lparr>getcwd = ''/proj/tests'',
      path_exists = (\<lambda>p. os_path_abspath ''/proj/tests'' p
                         \<in> set [''/'', ''/proj'', ''/proj/tests'', ''/proj/tasks.py'']),
      path_isdir = (\<lambda>p. os_path_abspath ''/proj/tests'' p
                        \<in> set [''/'', ''/proj'', ''/proj/tests'']),
      expanduser = (\<lambda>p. p)\<rparr>"

definition Foo :: pyval where
  "Foo = PyClass ''tasks.Foo'' [''tasks.Foo'', ''core.Locust'', ''object'']"

definition Bar :: pyval where
  "Bar = PyClass ''tasks._Bar'' [''tasks._Bar'', ''core.Locust'', ''object'']"

definition demo_module :: pymodule where
  "demo_module =
     \<lparr>module_doc = None,
      module_vars = [(''Foo'', Foo), (''_Bar'', Bar), (''Base'', Locust)]\<rparr>"

definition demo_import :: importer where
  "demo_import sp name = (Inr demo_module, sp)"

text \<open>An import that raises and leaves the search list as it found it.\<close>

definition failing_import :: importer where
  "failing_import sp name = (Inl (ImportError name), sp)"

text \<open>The defaults of \<^verbatim>\<open>parse_options\<close>, with \<^verbatim>\<open>-f tasks\<close>.\<close>

definition demo_options :: options where
  "demo_options =
     \<lparr>show_version = False, list_commands = False, shortlist = False, print_stats = False,
      no_web = False, master = False, slave = False, num_clients = 1, hatch_rate = 1,
      redis_host = ''localhost'', redis_port = 6379, hosts = [], locustfile = ''tasks''\<rparr>"

section \<open>Lists and strings\<close>

lemma py_index_first:
  assumes "x \<in> set xs" "py_index xs x = Inr i"
  shows "i < length xs \<and> xs ! i = x"
proof -
  have i: "i = length (takeWhile (\<lambda>y. y \<noteq> x) xs)"
    using assms by (simp add: py_index_def)
  have "takeWhile (\<lambda>y. y \<noteq> x) xs \<noteq> xs"
    using assms(1) by (simp add: takeWhile_eq_all_conv)
  then have lt: "i < length xs"
    unfolding i using length_takeWhile_le[of "\<lambda>y. y \<noteq> x" xs]
    by (metis le_neq_implies_less takeWhile_eq_take take_all_iff order_refl)
  with nth_length_takeWhile[of "\<lambda>y. y \<noteq> x" xs] show ?thesis
    unfolding i by simp
qed

lemma move_to_front_and_back:
  assumes "i < length xs" "xs ! i = d"
  shows "py_del (i + 1) (py_insert 0 d xs) = Inr (d # take i xs @ drop (Suc i) xs)"
    and "py_del 0 (py_insert (i + 1) d (d # take i xs @ drop (Suc i) xs)) = Inr xs"
proof -
  show "py_del (i + 1) (py_insert 0 d xs) = Inr (d # take i xs @ drop (Suc i) xs)"
    using assms by (simp add: py_del_def py_insert_def)
  have "take i xs @ d # drop (Suc i) xs = xs"
    using assms by (metis id_take_nth_drop)
  then show "py_del 0 (py_insert (i + 1) d (d # take i xs @ drop (Suc i) xs)) = Inr xs"
    using assms by (simp add: py_del_def py_insert_def min_def)
qed

section \<open>Paths\<close>

lemma py_split_nonempty [simp]: "py_split c s \<noteq> []"
  by (induction s) (auto split: list.splits)

lemma py_split_no_sep: "c \<notin> set s \<Longrightarrow> py_split c s = [s]"
  by (induction s) auto

lemma py_split_append: "py_split c (a @ c # b) = py_split c a @ py_split c b"
  by (induction a) (auto split: list.splits)

lemma py_split_parts_no_sep: "w \<in> set (py_split c s) \<Longrightarrow> c \<notin> set w"
  by (induction s arbitrary: w) (auto split: list.splits if_splits)

lemma climb_dot: "\<exists>r. climb k = CHR ''.'' # r"
  by (induction k) (auto simp: os_path_join_def startswith_def endswith_def)

lemma climb_Suc: "climb (Suc k) = ''../'' @ climb k"
  using climb_dot[of k] by (auto simp: os_path_join_def startswith_def endswith_def)

lemma climb_eq: "climb k = concat (replicate k ''../'') @ ''.''"
  by (induction k) (simp_all add: climb_Suc del: climb.simps(2))

lemma py_split_climb: "py_split CHR ''/'' (climb k) = replicate k ''..'' @ [''.'']"
proof (induction k)
  case 0
  show ?case by simp
next
  case (Suc k)
  have "climb (Suc k) = ''..'' @ CHR ''/'' # climb k"
    by (simp add: climb_Suc del: climb.simps(2))
  then show ?case
    using py_split_append[of "CHR ''/''" "''..''" "climb k"] Suc by simp
qed

lemma clean_step:
  assumes "clean L" "0 < s" "CHR ''/'' \<notin> set w"
  shows "clean (normpath_step s L w)"
  using assms by (auto simp: clean_def normpath_step_def dest: in_set_butlastD)

lemma clean_foldl:
  assumes "clean L" "0 < s" "\<forall>w \<in> set ws. CHR ''/'' \<notin> set w"
  shows "clean (foldl (normpath_step s) L ws)"
  using assms by (induction ws arbitrary: L) (auto simp: clean_step)

lemma step_dotdot:
  assumes "clean L" "0 < s"
  shows "normpath_step s L ''..'' = butlast L"
proof (cases "L = []")
  case True
  then show ?thesis using assms by (simp add: normpath_step_def)
next
  case False
  then have "last L \<in> set L" by simp
  then have "last L \<noteq> ''..''" using assms(1) unfolding clean_def by blast
  then show ?thesis using False assms by (simp add: normpath_step_def)
qed

lemma clean_butlast: "clean L \<Longrightarrow> clean (butlast L)"
  by (auto simp: clean_def dest: in_set_butlastD)

lemma foldl_dotdots:
  assumes "clean L" "0 < s"
  shows "foldl (normpath_step s) L (replicate k ''..'') = take (length L - k) L"
  using assms
proof (induction k arbitrary: L)
  case 0
  then show ?case by simp
next
  case (Suc k)
  have "foldl (normpath_step s) L (replicate (Suc k) ''..'')
      = foldl (normpath_step s) (butlast L) (replicate k ''..'')"
    using step_dotdot[OF Suc.prems] by simp
  also have "\<dots> = take (length (butlast L) - k) (butlast L)"
    using Suc.IH[OF clean_butlast[OF Suc.prems(1)] Suc.prems(2)] .
  also have "\<dots> = take (length L - Suc k) L"
    by (simp add: butlast_conv_take min_def)
  finally show ?case .
qed

lemma foldl_climb:
  assumes "clean L" "0 < s"
  shows "foldl (normpath_step s) L (py_split CHR ''/'' (climb k)) = take (length L - k) L"
  using foldl_dotdots[OF assms, of k]
  by (simp add: py_split_climb normpath_step_def)

lemma endswith_slash: "endswith a ''/'' \<longleftrightarrow> (a \<noteq> [] \<and> last a = CHR ''/'')"
  by (cases a rule: rev_cases) (auto simp: endswith_def)

lemma startswith_slash: "startswith a ''/'' \<longleftrightarrow> (\<exists>r. a = CHR ''/'' # r)"
  by (cases a) (auto simp: startswith_def)

lemma initial_slashes_join:
  assumes "startswith cwd ''/''"
  shows "initial_slashes_of (os_path_join cwd (CHR ''.'' # r)) = initial_slashes_of cwd"
proof -
  obtain c1 where c: "cwd = CHR ''/'' # c1"
    using assms by (auto simp: startswith_slash)
  show ?thesis
  proof (cases c1)
    case Nil
    then show ?thesis using c
      by (simp add: initial_slashes_of_def os_path_join_def startswith_def endswith_def)
  next
    case (Cons a c2)
    note c1 = this
    show ?thesis
    proof (cases c2)
      case Nil
      then show ?thesis using c c1
        by (simp add: initial_slashes_of_def os_path_join_def startswith_def endswith_def)
    next
      case (Cons b c3)
      then show ?thesis using c c1
        by (simp add: initial_slashes_of_def os_path_join_def startswith_def endswith_slash)
    qed
  qed
qed

lemma initial_slashes_pos: "startswith cwd ''/'' \<Longrightarrow> 0 < initial_slashes_of cwd"
  by (simp add: initial_slashes_of_def)

lemma step_empty [simp]: "normpath_step s L [] = L"
  by (simp add: normpath_step_def)

lemma comps_join:
  assumes "startswith cwd ''/''"
  shows "foldl (normpath_step s) [] (py_split CHR ''/'' (os_path_join cwd (CHR ''.'' # r)))
       = foldl (normpath_step s) (foldl (normpath_step s) [] (py_split CHR ''/'' cwd))
           (py_split CHR ''/'' (CHR ''.'' # r))"
proof (cases "endswith cwd ''/''")
  case True
  then obtain c' where c': "cwd = c' @ ''/''"
    by (metis endswith_slash append_butlast_last_id)
  have j: "os_path_join cwd (CHR ''.'' # r) = c' @ CHR ''/'' # (CHR ''.'' # r)"
    using True c' by (simp add: os_path_join_def startswith_def)
  have "py_split CHR ''/'' cwd = py_split CHR ''/'' c' @ [[]]"
    using py_split_append[of "CHR ''/''" c' "[]"] c' by simp
  then show ?thesis
    unfolding j py_split_append by simp
next
  case False
  have j: "os_path_join cwd (CHR ''.'' # r) = cwd @ CHR ''/'' # (CHR ''.'' # r)"
    using False assms by (auto simp: os_path_join_def startswith_def)
  show ?thesis unfolding j py_split_append by simp
qed

lemma clean_norm_comps: "startswith cwd ''/'' \<Longrightarrow> clean (norm_comps cwd)"
  unfolding norm_comps_def
  by (rule clean_foldl) (auto simp: clean_def initial_slashes_pos dest: py_split_parts_no_sep)

lemma py_join_nonempty: "clean L \<Longrightarrow> L \<noteq> [] \<Longrightarrow> py_join sep L \<noteq> []"
  by (induction sep L rule: py_join.induct) (auto simp: clean_def)

lemma abspath_climb:
  assumes "startswith cwd ''/''"
  shows "os_path_abspath cwd (climb k)
       = render (initial_slashes_of cwd) (take (length (norm_comps cwd) - k) (norm_comps cwd))"
proof -
  obtain r where r: "climb k = CHR ''.'' # r"
    using climb_dot by blast
  let ?s = "initial_slashes_of cwd"
  let ?J = "os_path_join cwd (climb k)"
  have pos: "0 < ?s" using assms by (rule initial_slashes_pos)
  have nabs: "\<not> os_path_isabs (climb k)"
    by (simp add: r os_path_isabs_def startswith_def)
  have ne: "?J \<noteq> []"
    using assms by (auto simp: os_path_join_def r startswith_slash)
  have ini: "initial_slashes_of ?J = ?s"
    unfolding r using assms by (rule initial_slashes_join)
  have comps: "foldl (normpath_step ?s) [] (py_split CHR ''/'' ?J)
      = take (length (norm_comps cwd) - k) (norm_comps cwd)"
    using comps_join[OF assms, of ?s r] foldl_climb[OF clean_norm_comps[OF assms] pos, of k]
    by (simp add: r norm_comps_def)
  have "os_path_abspath cwd (climb k) = os_path_normpath ?J"
    using nabs by (simp add: os_path_abspath_def)
  also have "\<dots> = render ?s (take (length (norm_comps cwd) - k) (norm_comps cwd))"
    using ne pos by (simp add: os_path_normpath_def Let_def ini comps render_def)
  finally show ?thesis .
qed

lemma takeWhile_upto_sep: "c \<notin> set w \<Longrightarrow> takeWhile (\<lambda>x. x \<noteq> c) (w @ c # t) = w"
  by (induction w) auto

lemma takeWhile_no_sep: "c \<notin> set w \<Longrightarrow> takeWhile (\<lambda>x. x \<noteq> c) w = w"
  by (induction w) auto

lemma split_tail: "snd (os_path_split p) = rev (takeWhile (\<lambda>x. x \<noteq> CHR ''/'') (rev p))"
proof (cases "CHR ''/'' \<in> set p")
  case False
  then show ?thesis
    using takeWhile_no_sep[of "CHR ''/''" "rev p"]
    by (simp add: os_path_split_def py_rfind_def Let_def del: takeWhile_eq_all_conv)
next
  case True
  let ?tw = "takeWhile (\<lambda>x. x \<noteq> CHR ''/'') (rev p)"
  have le: "length ?tw \<le> length p"
    using length_takeWhile_le[of _ "rev p"] by simp
  have "nat (py_rfind CHR ''/'' p + 1) = length p - length ?tw"
    using True le by (simp add: py_rfind_def)
  then have "snd (os_path_split p) = drop (length p - length ?tw) p"
    by (simp add: os_path_split_def Let_def)
  also have "\<dots> = rev (take (length ?tw) (rev p))"
    by (simp add: rev_take)
  also have "\<dots> = rev ?tw"
    using takeWhile_eq_take[of "\<lambda>x. x \<noteq> CHR ''/''" "rev p"] by simp
  finally show ?thesis .
qed

lemma py_join_snoc: "py_join sep (L @ [w]) = (if L = [] then w else py_join sep L @ sep @ w)"
  by (induction sep L rule: py_join.induct) auto

lemma tail_render:
  assumes "clean L" "0 < s"
  shows "snd (os_path_split (render s L)) = (if L = [] then [] else last L)"
proof (cases L rule: rev_cases)
  case Nil
  then show ?thesis using assms(2)
    by (cases s) (simp_all add: split_tail render_def takeWhile_eq_Nil_iff hd_append)
next
  case (snoc L' w)
  then have w: "CHR ''/'' \<notin> set w" using assms(1) by (simp add: clean_def)
  have "rev (render s L) = rev w @ (if L' = [] then [] else CHR ''/'' # rev (py_join ''/'' L')) @ replicate s CHR ''/''"
    by (simp add: render_def snoc py_join_snoc)
  moreover have "\<exists>t. (if L' = [] then [] else CHR ''/'' # rev (py_join ''/'' L')) @ replicate s CHR ''/'' = CHR ''/'' # t"
    using assms(2) by (cases s) auto
  ultimately obtain t where "rev (render s L) = rev w @ CHR ''/'' # t"
    by auto
  then have "takeWhile (\<lambda>x. x \<noteq> CHR ''/'') (rev (render s L)) = rev w"
    using w takeWhile_upto_sep[of "CHR ''/''" "rev w" t] by simp
  then show ?thesis by (simp add: split_tail snoc)
qed

lemma walk_condition:
  assumes "startswith cwd ''/''"
  shows "snd (os_path_split (os_path_abspath cwd (climb k))) \<noteq> [] \<longleftrightarrow> k < length (norm_comps cwd)"
proof -
  let ?L = "norm_comps cwd"
  have cl: "clean (take (length ?L - k) ?L)"
    using clean_norm_comps[OF assms] by (auto simp: clean_def dest: in_set_takeD)
  have "snd (os_path_split (os_path_abspath cwd (climb k)))
      = (if take (length ?L - k) ?L = [] then [] else last (take (length ?L - k) ?L))"
    unfolding abspath_climb[OF assms]
    by (rule tail_render[OF cl initial_slashes_pos[OF assms]])
  moreover have "take (length ?L - k) ?L \<noteq> [] \<Longrightarrow> last (take (length ?L - k) ?L) \<noteq> []"
    using cl unfolding clean_def by (meson last_in_set)
  ultimately show ?thesis by auto
qed

lemma find_walk_levels:
  assumes "startswith (getcwd env) ''/''" "k \<le> length (norm_comps (getcwd env))"
  shows "find_walk env names (climb k)
       = Some (first_in_levels env names [k..<length (norm_comps (getcwd env))])"
  using assms(2)
proof (induction "length (norm_comps (getcwd env)) - k" arbitrary: k)
  case 0
  then have "k = length (norm_comps (getcwd env))" by simp
  then show ?case
    using walk_condition[OF assms(1), of k]
    by (subst find_walk.simps) (simp add: abspath_def)
next
  case (Suc d)
  then have lt: "k < length (norm_comps (getcwd env))" by simp
  have ih: "find_walk env names (climb (Suc k))
       = Some (first_in_levels env names [Suc k..<length (norm_comps (getcwd env))])"
    using Suc.hyps(1)[of "Suc k"] Suc.hyps(2) lt by simp
  show ?case
    using walk_condition[OF assms(1), of k] lt ih
    by (subst find_walk.simps) (simp add: abspath_def upt_conv_Cons split: option.splits)
qed

lemma py_split_slashes: "py_split CHR ''/'' (replicate s CHR ''/'' @ x) = replicate s [] @ py_split CHR ''/'' x"
  by (induction s) auto

lemma py_split_py_join:
  assumes "clean L" "L \<noteq> []"
  shows "py_split CHR ''/'' (py_join ''/'' L) = L"
  using assms
proof (induction "''/''" L rule: py_join.induct)
  case 1
  then show ?case by simp
next
  case (2 x)
  then show ?case by (simp add: clean_def py_split_no_sep)
next
  case (3 x y ys)
  have "py_split CHR ''/'' (x @ CHR ''/'' # py_join ''/'' (y # ys)) = py_split CHR ''/'' x @ py_split CHR ''/'' (py_join ''/'' (y # ys))"
    by (rule py_split_append)
  moreover have "py_split CHR ''/'' x = [x]"
    using 3(2) by (simp add: clean_def py_split_no_sep)
  moreover have "py_split CHR ''/'' (py_join ''/'' (y # ys)) = y # ys"
    using 3 by (simp add: clean_def)
  ultimately show ?case by simp
qed

lemma components_render:
  assumes "clean L"
  shows "filter (\<lambda>c. c \<noteq> []) (py_split CHR ''/'' (render s L)) = L"
proof (cases "L = []")
  case True
  then show ?thesis using py_split_slashes[of s "[]"] by (simp add: render_def)
next
  case False
  have "filter (\<lambda>c. c \<noteq> []) L = L"
    using assms by (auto simp: clean_def filter_id_conv)
  then show ?thesis
    using py_split_py_join[OF assms False] by (simp add: render_def py_split_slashes)
qed

lemma search_depth_eq:
  assumes "startswith (getcwd env) ''/''"
  shows "search_depth env = length (norm_comps (getcwd env))"
  using abspath_climb[OF assms, of 0] components_render[OF clean_norm_comps[OF assms]]
  by (simp add: search_depth_def abspath_def)

lemma find_in_dir_find:
  "find_in_dir env (climb k) names
     = map_option (candidate_path env) (find (accepts env) (map (\<lambda>name. (k, name)) names))"
  by (induction names) (auto simp: Let_def)

lemma find_append_option:
  "find P (xs @ ys) = (case find P xs of Some x \<Rightarrow> Some x | None \<Rightarrow> find P ys)"
  by (induction xs) auto

lemma first_in_levels_find:
  "first_in_levels env names ks
     = map_option (candidate_path env)
         (find (accepts env) (concat (map (\<lambda>k. map (\<lambda>name. (k, name)) names) ks)))"
  by (induction ks) (auto simp: find_in_dir_find find_append_option split: option.splits)

lemma dirname_bare: "CHR ''/'' \<notin> set n \<Longrightarrow> os_path_dirname n = []"
  by (simp add: os_path_dirname_def os_path_split_def py_rfind_def)

lemma find_locustfile_bare:
  assumes "CHR ''/'' \<notin> set n"
  shows "find_locustfile env n = find_walk env (candidate_names n) (climb 0)"
  using assms dirname_bare[OF assms]
  by (simp add: find_locustfile_def candidate_names_def Let_def)

lemma find_locustfile_eq:
  assumes "os_path_isabs (getcwd env)" "CHR ''/'' \<notin> set n"
  shows "find_locustfile env n
       = Some (map_option (candidate_path env) (find (accepts env) (probe_order env n)))"
proof -
  have abs: "startswith (getcwd env) ''/''"
    using assms(1) by (simp add: os_path_isabs_def)
  show ?thesis
    unfolding find_locustfile_bare[OF assms(2)] probe_order_def search_depth_eq[OF abs]
    using find_walk_levels[OF abs, of 0 "candidate_names n"]
    by (simp add: first_in_levels_find)
qed

lemma dropWhile_upto_sep: "c \<notin> set w \<Longrightarrow> dropWhile (\<lambda>x. x \<noteq> c) (w @ c # t) = c # t"
  by (induction w) auto

lemma dropWhile_no_sep: "c \<notin> set w \<Longrightarrow> dropWhile (\<lambda>x. x \<noteq> c) w = []"
  by (induction w) auto

lemma split_head_raw:
  "take (nat (py_rfind CHR ''/'' p + 1)) p = rev (dropWhile (\<lambda>x. x \<noteq> CHR ''/'') (rev p))"
proof (cases "CHR ''/'' \<in> set p")
  case False
  then show ?thesis
    using dropWhile_no_sep[of "CHR ''/''" "rev p"] by (simp add: py_rfind_def)
next
  case True
  let ?tw = "takeWhile (\<lambda>x. x \<noteq> CHR ''/'') (rev p)"
  have le: "length ?tw \<le> length p"
    using length_takeWhile_le[of _ "rev p"] by simp
  have "nat (py_rfind CHR ''/'' p + 1) = length p - length ?tw"
    using True le by (simp add: py_rfind_def)
  moreover have "take (length p - length ?tw) p = rev (drop (length ?tw) (rev p))"
    by (simp add: rev_drop)
  moreover have "drop (length ?tw) (rev p) = dropWhile (\<lambda>x. x \<noteq> CHR ''/'') (rev p)"
    by (simp add: dropWhile_eq_drop)
  ultimately show ?thesis by simp
qed

lemma dirname_eq:
  "os_path_dirname p =
     (let head = rev (dropWhile (\<lambda>x. x \<noteq> CHR ''/'') (rev p))
      in if head \<noteq> [] \<and> head \<noteq> replicate (length head) CHR ''/''
         then py_rstrip CHR ''/'' head else head)"
  unfolding os_path_dirname_def os_path_split_def Let_def split_head_raw by simp

lemma py_join_last:
  assumes "clean L" "L \<noteq> []"
  shows "\<exists>u x. py_join ''/'' L = u @ [x] \<and> x \<noteq> CHR ''/''"
proof -
  obtain L' w where L: "L = L' @ [w]"
    using assms(2) by (meson rev_exhaust)
  then have w: "w \<noteq> []" "CHR ''/'' \<notin> set w"
    using assms(1) by (simp_all add: clean_def)
  then obtain w' x where wx: "w = w' @ [x]"
    by (meson rev_exhaust)
  then have "x \<noteq> CHR ''/''" using w(2) by auto
  moreover have "py_join ''/'' L = (if L' = [] then [] else py_join ''/'' L' @ ''/'') @ w' @ [x]"
    by (simp add: L py_join_snoc wx)
  ultimately show ?thesis by (metis append_assoc)
qed

lemma dirname_root_child:
  assumes "CHR ''/'' \<notin> set w"
  shows "os_path_dirname (replicate (Suc s) CHR ''/'' @ w) = replicate (Suc s) CHR ''/''"
proof -
  have "rev (replicate (Suc s) CHR ''/'' @ w) = rev w @ CHR ''/'' # replicate s CHR ''/''"
    by (simp add: replicate_append_same)
  then have "dropWhile (\<lambda>x. x \<noteq> CHR ''/'') (rev (replicate (Suc s) CHR ''/'' @ w))
      = CHR ''/'' # replicate s CHR ''/''"
    using dropWhile_upto_sep[of "CHR ''/''" "rev w" "replicate s CHR ''/''"] assms
    by (simp only: set_rev not_False_eq_True)
  then have "rev (dropWhile (\<lambda>x. x \<noteq> CHR ''/'') (rev (replicate (Suc s) CHR ''/'' @ w)))
      = replicate (Suc s) CHR ''/''"
    by (simp add: replicate_append_same)
  then show ?thesis
    unfolding dirname_eq Let_def by simp
qed

lemma dirname_deeper:
  assumes "CHR ''/'' \<notin> set w" "x \<noteq> CHR ''/''"
  shows "os_path_dirname (pre @ u @ [x] @ CHR ''/'' # w) = pre @ u @ [x]"
proof -
  have "rev (pre @ u @ [x] @ CHR ''/'' # w) = rev w @ CHR ''/'' # (x # rev u @ rev pre)"
    by simp
  then have "dropWhile (\<lambda>x. x \<noteq> CHR ''/'') (rev (pre @ u @ [x] @ CHR ''/'' # w))
      = CHR ''/'' # (x # rev u @ rev pre)"
    using dropWhile_upto_sep[of "CHR ''/''" "rev w" "x # rev u @ rev pre"] assms(1)
    by (simp only: set_rev not_False_eq_True)
  then have head: "rev (dropWhile (\<lambda>x. x \<noteq> CHR ''/'') (rev (pre @ u @ [x] @ CHR ''/'' # w)))
      = pre @ u @ [x, CHR ''/'']"
    by simp
  have "x \<in> set (pre @ u @ [x, CHR ''/''])" by simp
  then have notall: "pre @ u @ [x, CHR ''/''] \<noteq> replicate (length (pre @ u @ [x, CHR ''/''])) CHR ''/''"
    using assms(2) by (metis in_set_replicate)
  have strip: "py_rstrip CHR ''/'' (pre @ u @ [x, CHR ''/'']) = pre @ u @ [x]"
    using assms(2) by (simp add: py_rstrip_def)
  have ne: "pre @ u @ [x, CHR ''/''] \<noteq> []" by simp
  show ?thesis
    unfolding dirname_eq Let_def head
    by (simp only: ne notall strip simp_thms if_True)
qed

lemma dirname_render:
  assumes "clean L" "0 < s"
  shows "os_path_dirname (render s L) = render s (butlast L)"
proof -
  obtain s' where s': "s = Suc s'" using assms(2) by (cases s) auto
  show ?thesis
  proof (cases L rule: rev_cases)
    case Nil
    then show ?thesis
      using dirname_root_child[of "[]" s'] by (simp add: render_def s')
  next
    case (snoc L' w)
    then have w: "CHR ''/'' \<notin> set w" using assms(1) by (simp add: clean_def)
    have cl': "clean L'" using assms(1) snoc by (simp add: clean_def)
    show ?thesis
    proof (cases "L' = []")
      case True
      then show ?thesis
        using dirname_root_child[OF w, of s'] by (simp add: render_def s' snoc)
    next
      case False
      obtain u x where ux: "py_join ''/'' L' = u @ [x]" "x \<noteq> CHR ''/''"
        using py_join_last[OF cl' False] by blast
      have "render s L = replicate s CHR ''/'' @ u @ [x] @ CHR ''/'' # w"
        by (simp add: render_def snoc py_join_snoc False ux(1))
      moreover have "render s (butlast L) = replicate s CHR ''/'' @ u @ [x]"
        by (simp add: render_def snoc ux(1))
      ultimately show ?thesis
        using dirname_deeper[OF w ux(2), of "replicate s CHR ''/''" u] by simp
    qed
  qed
qed

lemma dirname_funpow_render:
  assumes "clean L" "0 < s"
  shows "(os_path_dirname ^^ k) (render s L) = render s (take (length L - k) L)"
proof (induction k)
  case 0
  show ?case by simp
next
  case (Suc k)
  have cl: "clean (take (length L - k) L)"
    using assms(1) by (auto simp: clean_def dest: in_set_takeD)
  have "butlast (take (length L - k) L) = take (length L - Suc k) L"
    by (simp add: butlast_take)
  then show ?case
    using Suc dirname_render[OF cl assms(2)] by simp
qed

lemma abspath_climb_dirname:
  assumes "os_path_isabs (getcwd env)"
  shows "abspath env (climb k) = (os_path_dirname ^^ k) (abspath env ''.'')"
proof -
  have abs: "startswith (getcwd env) ''/''"
    using assms by (simp add: os_path_isabs_def)
  show ?thesis
    using abspath_climb[OF abs, of k] abspath_climb[OF abs, of 0]
      dirname_funpow_render[OF clean_norm_comps[OF abs] initial_slashes_pos[OF abs], of k]
    by (simp add: abspath_def)
qed

section \<open>The loader and the search list\<close>

lemma load_inserted:
  assumes "import (py_insert 0 d xs) (fst (os_path_splitext l)) = (Inr m, py_insert 0 d xs)"
   "d \<notin> set xs" "os_path_split path = (d, l)"
  shows "load_locustfile import path xs = (Inr (module_doc m, filter is_locust (module_vars m)), xs)"
proof -
  have del: "py_del 0 (py_insert 0 d xs) = Inr xs"
    by (simp add: py_del_def py_insert_def)
  show ?thesis
    unfolding load_locustfile_def assms(3) Let_def prod.case
    using assms(2) by (simp only: if_True if_False simp_thms sum.case prod.case assms(1) del option.case)
qed

lemma load_at_front:
  assumes "import xs (fst (os_path_splitext l)) = (Inr m, xs)"
   "d \<in> set xs" "py_index xs d = Inr 0" "os_path_split path = (d, l)"
  shows "load_locustfile import path xs = (Inr (module_doc m, filter is_locust (module_vars m)), xs)"
  unfolding load_locustfile_def assms(4) Let_def prod.case
  using assms(2) by (simp only: if_True if_False simp_thms sum.case prod.case assms(1,3) option.case)

lemma load_moved:
  assumes "import (d # take i xs @ drop (Suc i) xs) (fst (os_path_splitext l))
             = (Inr m, d # take i xs @ drop (Suc i) xs)"
   "d \<in> set xs" "py_index xs d = Inr i" "i \<noteq> 0" "os_path_split path = (d, l)"
  shows "load_locustfile import path xs = (Inr (module_doc m, filter is_locust (module_vars m)), xs)"
proof -
  have il: "i < length xs" "xs ! i = d"
    using py_index_first[OF assms(2,3)] by simp_all
  show ?thesis
    unfolding load_locustfile_def assms(5) Let_def prod.case
    using assms(2,4)
    by (simp only: if_True if_False simp_thms sum.case prod.case assms(1,3) option.case
          move_to_front_and_back[OF il])
qed


lemma remove1_first_index:
  "x \<in> set xs \<Longrightarrow>
     remove1 x xs = take (length (takeWhile (\<lambda>y. y \<noteq> x) xs)) xs
                    @ drop (Suc (length (takeWhile (\<lambda>y. y \<noteq> x) xs))) xs"
  by (induction xs) auto

lemma prepared_absent: "d \<notin> set xs \<Longrightarrow> py_insert 0 d xs = d # remove1 d xs"
  by (simp add: py_insert_def remove1_idem)

lemma prepared_moved:
  assumes "d \<in> set xs" "py_index xs d = Inr i"
  shows "d # take i xs @ drop (Suc i) xs = d # remove1 d xs"
proof -
  have "i = length (takeWhile (\<lambda>y. y \<noteq> d) xs)"
    using assms by (simp add: py_index_def)
  then show ?thesis
    using remove1_first_index[OF assms(1)] by simp
qed

lemma prepared_at_front:
  assumes "d \<in> set xs" "py_index xs d = Inr 0"
  shows "xs = d # remove1 d xs"
proof -
  have "xs ! 0 = d" "0 < length xs"
    using py_index_first[OF assms] by simp_all
  then obtain ys where "xs = d # ys"
    by (cases xs) auto
  then show ?thesis by simp
qed

lemma load_inserted_raises:
  assumes "import (py_insert 0 d xs) (fst (os_path_splitext l)) = (Inl e, sp2)"
   "d \<notin> set xs" "os_path_split path = (d, l)"
  shows "load_locustfile import path xs = (Inl e, sp2)"
  unfolding load_locustfile_def assms(3) Let_def prod.case
  using assms(2) by (simp only: if_True if_False simp_thms sum.case prod.case assms(1) option.case)

lemma load_at_front_raises:
  assumes "import xs (fst (os_path_splitext l)) = (Inl e, sp2)"
   "d \<in> set xs" "py_index xs d = Inr 0" "os_path_split path = (d, l)"
  shows "load_locustfile import path xs = (Inl e, sp2)"
  unfolding load_locustfile_def assms(4) Let_def prod.case
  using assms(2) by (simp only: if_True if_False simp_thms sum.case prod.case assms(1,3) option.case)

lemma load_moved_raises:
  assumes "import (d # take i xs @ drop (Suc i) xs) (fst (os_path_splitext l)) = (Inl e, sp2)"
   "d \<in> set xs" "py_index xs d = Inr i" "i \<noteq> 0" "os_path_split path = (d, l)"
  shows "load_locustfile import path xs = (Inl e, sp2)"
proof -
  have il: "i < length xs" "xs ! i = d"
    using py_index_first[OF assms(2,3)] by simp_all
  show ?thesis
    unfolding load_locustfile_def assms(5) Let_def prod.case
    using assms(2,4)
    by (simp only: if_True if_False simp_thms sum.case prod.case assms(1,3) option.case
          move_to_front_and_back[OF il])
qed

lemma load_returns:
  assumes sp: "os_path_split path = (d, l)"
    and imp: "import (d # remove1 d xs) (fst (os_path_splitext l)) = (Inr m, d # remove1 d xs)"
  shows "load_locustfile import path xs
           = (Inr (module_doc m, filter is_locust (module_vars m)), xs)"
proof (cases "d \<in> set xs")
  case False
  have "import (py_insert 0 d xs) (fst (os_path_splitext l)) = (Inr m, py_insert 0 d xs)"
    using imp by (simp only: prepared_absent[OF False])
  from load_inserted[of "import" d xs l m path, OF this False sp] show ?thesis .
next
  case True
  then obtain i where i: "py_index xs d = Inr i"
    by (simp add: py_index_def)
  show ?thesis
  proof (cases "i = 0")
    case True
    have "import xs (fst (os_path_splitext l)) = (Inr m, xs)"
      using imp prepared_at_front[OF \<open>d \<in> set xs\<close> i[unfolded True]] by simp
    from load_at_front[of "import" xs l m d path, OF this \<open>d \<in> set xs\<close> i[unfolded True] sp]
    show ?thesis .
  next
    case False
    have "import (d # take i xs @ drop (Suc i) xs) (fst (os_path_splitext l))
        = (Inr m, d # take i xs @ drop (Suc i) xs)"
      using imp by (simp only: prepared_moved[OF \<open>d \<in> set xs\<close> i])
    from load_moved[of "import" d i xs l m path, OF this \<open>d \<in> set xs\<close> i False sp]
    show ?thesis .
  qed
qed

lemma load_raises:
  assumes sp: "os_path_split path = (d, l)"
    and imp: "import (d # remove1 d xs) (fst (os_path_splitext l)) = (Inl e, sp2)"
  shows "load_locustfile import path xs = (Inl e, sp2)"
proof (cases "d \<in> set xs")
  case False
  have "import (py_insert 0 d xs) (fst (os_path_splitext l)) = (Inl e, sp2)"
    using imp by (simp only: prepared_absent[OF False])
  from load_inserted_raises[of "import" d xs l e sp2 path, OF this False sp] show ?thesis .
next
  case True
  then obtain i where i: "py_index xs d = Inr i"
    by (simp add: py_index_def)
  show ?thesis
  proof (cases "i = 0")
    case True
    have "import xs (fst (os_path_splitext l)) = (Inl e, sp2)"
      using imp prepared_at_front[OF \<open>d \<in> set xs\<close> i[unfolded True]] by simp
    from load_at_front_raises[of "import" xs l e sp2 d path,
        OF this \<open>d \<in> set xs\<close> i[unfolded True] sp]
    show ?thesis .
  next
    case False
    have "import (d # take i xs @ drop (Suc i) xs) (fst (os_path_splitext l)) = (Inl e, sp2)"
      using imp by (simp only: prepared_moved[OF \<open>d \<in> set xs\<close> i])
    from load_moved_raises[of "import" d i xs l e sp2 path,
        OF this \<open>d \<in> set xs\<close> i False sp]
    show ?thesis .
  qed
qed

text \<open>
  C1, as the code has it. \<^verbatim>\<open>load_locustfile\<close> hands the import the list with the
  file's directory at the front, followed by the list it was given without its first
  occurrence of the directory; this covers the three starting conditions (directory
  absent, present further down, already at the front). When that one import returns a
  module and leaves the list as it was handed over, \<^verbatim>\<open>sys.path\<close> after
  \<^verbatim>\<open>load_locustfile\<close> is its value before the call, element for element. When that
  import raises, the exception propagates and no restoring line runs: \<^verbatim>\<open>sys.path\<close>
  stays as the import left it, the directory at the front if the import did not
  write to the list.
\<close>

theorem load_locustfile_restores_sys_path:
  assumes "os_path_split path = (directory, fname)"
  shows "(\<forall>m. import (directory # remove1 directory sys_path) (fst (os_path_splitext fname))
               = (Inr m, directory # remove1 directory sys_path)
            \<longrightarrow> load_locustfile import path sys_path
               = (Inr (module_doc m, filter is_locust (module_vars m)), sys_path))
       \<and> (\<forall>e sp. import (directory # remove1 directory sys_path) (fst (os_path_splitext fname))
               = (Inl e, sp)
            \<longrightarrow> load_locustfile import path sys_path = (Inl e, sp))"
  using load_returns[OF assms] load_raises[OF assms] by blast

text \<open>
  The theorem at work: \<^verbatim>\<open>/proj\<close> absent from the list and \<^verbatim>\<open>/proj\<close> present but
  not at the front, with an import that succeeds, and the latter with an import that
  raises.
\<close>

theorem load_locustfile_restores_sys_path_witness:
  "os_path_split ''/proj/tasks.py'' = (''/proj'', ''tasks.py'')
   \<and> demo_import (''/proj'' # remove1 ''/proj'' [''/usr/lib'']) (fst (os_path_splitext ''tasks.py''))
       = (Inr demo_module, ''/proj'' # remove1 ''/proj'' [''/usr/lib''])
   \<and> snd (load_locustfile demo_import ''/proj/tasks.py'' [''/usr/lib'']) = [''/usr/lib'']
   \<and> demo_import (''/proj'' # remove1 ''/proj'' [''/usr/lib'', ''/proj'', ''/opt''])
         (fst (os_path_splitext ''tasks.py''))
       = (Inr demo_module, ''/proj'' # remove1 ''/proj'' [''/usr/lib'', ''/proj'', ''/opt''])
   \<and> snd (load_locustfile demo_import ''/proj/tasks.py'' [''/usr/lib'', ''/proj'', ''/opt''])
       = [''/usr/lib'', ''/proj'', ''/opt'']
   \<and> failing_import (''/proj'' # remove1 ''/proj'' [''/usr/lib'', ''/proj'', ''/opt''])
         (fst (os_path_splitext ''tasks.py''))
       = (Inl (ImportError ''tasks''), [''/proj'', ''/usr/lib'', ''/opt''])
   \<and> load_locustfile failing_import ''/proj/tasks.py'' [''/usr/lib'', ''/proj'', ''/opt'']
       = (Inl (ImportError ''tasks''), [''/proj'', ''/usr/lib'', ''/opt''])"
proof -
  have sp: "os_path_split ''/proj/tasks.py'' = (''/proj'', ''tasks.py'')"
    by code_simp
  have nm: "fst (os_path_splitext ''tasks.py'') = ''tasks''"
    by code_simp
  have h1: "demo_import (''/proj'' # remove1 ''/proj'' [''/usr/lib'']) (fst (os_path_splitext ''tasks.py''))
       = (Inr demo_module, ''/proj'' # remove1 ''/proj'' [''/usr/lib''])"
    by (simp add: demo_import_def)
  have h2: "demo_import (''/proj'' # remove1 ''/proj'' [''/usr/lib'', ''/proj'', ''/opt''])
         (fst (os_path_splitext ''tasks.py''))
       = (Inr demo_module, ''/proj'' # remove1 ''/proj'' [''/usr/lib'', ''/proj'', ''/opt''])"
    by (simp add: demo_import_def)
  have h3: "failing_import (''/proj'' # remove1 ''/proj'' [''/usr/lib'', ''/proj'', ''/opt''])
         (fst (os_path_splitext ''tasks.py''))
       = (Inl (ImportError ''tasks''), [''/proj'', ''/usr/lib'', ''/opt''])"
    by (simp add: failing_import_def nm)
  have r1: "snd (load_locustfile demo_import ''/proj/tasks.py'' [''/usr/lib'']) = [''/usr/lib'']"
    using load_locustfile_restores_sys_path[OF sp, of demo_import "[''/usr/lib'']"] h1
    by (simp only: snd_conv)
  have r2: "snd (load_locustfile demo_import ''/proj/tasks.py'' [''/usr/lib'', ''/proj'', ''/opt''])
       = [''/usr/lib'', ''/proj'', ''/opt'']"
    using load_locustfile_restores_sys_path[OF sp, of demo_import "[''/usr/lib'', ''/proj'', ''/opt'']"] h2
    by (simp only: snd_conv)
  have r3: "load_locustfile failing_import ''/proj/tasks.py'' [''/usr/lib'', ''/proj'', ''/opt'']
       = (Inl (ImportError ''tasks''), [''/proj'', ''/usr/lib'', ''/opt''])"
    using load_locustfile_restores_sys_path[OF sp, of failing_import "[''/usr/lib'', ''/proj'', ''/opt'']"] h3
    by blast
  from sp h1 r1 h2 r2 h3 r3 show ?thesis by blast
qed

text \<open>
  C1 as stated fails when the import raises: the exception leaves \<^verbatim>\<open>load_locustfile\<close>
  before the lines that restore the list, and \<^verbatim>\<open>/proj\<close> stays at the front, both
  when it was absent and when it was further down.
\<close>

theorem load_locustfile_failed_import_counterexample:
  "load_locustfile failing_import ''/proj/tasks.py'' [''/usr/lib'']
     = (Inl (ImportError ''tasks''), [''/proj'', ''/usr/lib''])
   \<and> load_locustfile failing_import ''/proj/tasks.py'' [''/usr/lib'', ''/proj'']
     = (Inl (ImportError ''tasks''), [''/proj'', ''/usr/lib''])"
  by code_simp

section \<open>The catalog\<close>

text \<open>
  C2, at the module of the claim: the catalog \<^verbatim>\<open>load_locustfile\<close> builds from
  \<^verbatim>\<open>{Foo, _Bar, Base}\<close> holds \<^verbatim>\<open>Foo\<close> and also \<^verbatim>\<open>Base\<close>, the harness's own base
  class, because \<^verbatim>\<open>_internals\<close> is the empty list.
\<close>

theorem catalog_keeps_base_class:
  "fst (load_locustfile demo_import ''/proj/tasks.py'' [''/usr/lib''])
     = Inr (None, [(''Foo'', Foo), (''Base'', Locust)])"
  by code_simp

section \<open>The resolver\<close>

text \<open>
  C5: for a requested name without a slash, and a working directory that is an
  absolute path, \<^verbatim>\<open>find_locustfile\<close> returns the absolute path of the first
  candidate it accepts in this order: the working directory before its parent, the
  parent before the grandparent and so on up to, not including, the root, and in
  each directory the bare name before the name with \<^verbatim>\<open>.py\<close>; it returns
  \<^verbatim>\<open>None\<close> when it accepts none. The directory probed in round \<open>k\<close> is the
  working directory with \<^verbatim>\<open>os.path.dirname\<close> applied \<open>k\<close> times.
\<close>

theorem find_locustfile_probe_order:
  assumes "os_path_isabs (getcwd env)" "CHR ''/'' \<notin> set n"
  shows "find_locustfile env n
           = Some (map_option (candidate_path env) (find (accepts env) (probe_order env n)))
       \<and> (\<forall>k. abspath env (climb k) = (os_path_dirname ^^ k) (abspath env ''.''))"
  using find_locustfile_eq[OF assms] abspath_climb_dirname[OF assms(1)] by simp

text \<open>
  The scenario of the claim: \<^verbatim>\<open>tasks\<close> asked for in \<^verbatim>\<open>/proj/tests\<close>, where
  \<^verbatim>\<open>/proj/tests/tasks.py\<close> is absent and \<^verbatim>\<open>/proj/tasks.py\<close> present.
\<close>

theorem find_locustfile_probe_order_witness:
  "os_path_isabs (getcwd demo_env) \<and> CHR ''/'' \<notin> set ''tasks''
   \<and> probe_order demo_env ''tasks''
       = [(0, ''tasks''), (0, ''tasks.py''), (1, ''tasks''), (1, ''tasks.py'')]
   \<and> find_locustfile demo_env ''tasks'' = Some (Some ''/proj/tasks.py'')"
proof -
  have h1: "os_path_isabs (getcwd demo_env)"
    by code_simp
  have h2: "CHR ''/'' \<notin> set ''tasks''"
    by simp
  have order: "probe_order demo_env ''tasks''
       = [(0, ''tasks''), (0, ''tasks.py''), (1, ''tasks''), (1, ''tasks.py'')]"
    by code_simp
  have first: "map_option (candidate_path demo_env) (find (accepts demo_env) (probe_order demo_env ''tasks''))
       = Some ''/proj/tasks.py''"
    by code_simp
  show ?thesis
    using find_locustfile_probe_order[OF h1 h2] h1 h2 order first by simp
qed

text \<open>
  C6: for a requested name without a slash, and a working directory that is an
  absolute path, the search returns: the loop's test fails exactly from the round
  on in which the ascent has reached the root, where \<^verbatim>\<open>os.path.split\<close> of the
  absolute path has an empty last component, and when no candidate was accepted on
  the way the result is \<^verbatim>\<open>None\<close>.
\<close>

theorem find_locustfile_terminates:
  assumes "os_path_isabs (getcwd env)" "CHR ''/'' \<notin> set n"
  shows "(\<exists>r. find_locustfile env n = Some r)
       \<and> (\<forall>k. (snd (os_path_split (abspath env (climb k))) = []) = (search_depth env \<le> k))
       \<and> (find (accepts env) (probe_order env n) = None \<longrightarrow> find_locustfile env n = Some None)"
proof -
  have abs: "startswith (getcwd env) ''/''"
    using assms(1) by (simp add: os_path_isabs_def)
  have eq: "find_locustfile env n
      = Some (map_option (candidate_path env) (find (accepts env) (probe_order env n)))"
    using assms by (rule find_locustfile_eq)
  have returns: "\<exists>r. find_locustfile env n = Some r"
    unfolding eq by (rule exI) (rule refl)
  have test: "(snd (os_path_split (abspath env (climb k))) = []) = (search_depth env \<le> k)" for k
    unfolding abspath_def search_depth_eq[OF abs]
    using walk_condition[OF abs, of k] by linarith
  have none: "find (accepts env) (probe_order env n) = None \<longrightarrow> find_locustfile env n = Some None"
    unfolding eq by simp
  from returns test none show ?thesis by blast
qed

theorem find_locustfile_terminates_witness:
  "os_path_isabs (getcwd demo_env) \<and> CHR ''/'' \<notin> set ''nothing''
   \<and> find (accepts demo_env) (probe_order demo_env ''nothing'') = None
   \<and> search_depth demo_env = 2
   \<and> find_locustfile demo_env ''nothing'' = Some None"
proof -
  have h1: "os_path_isabs (getcwd demo_env)"
    by code_simp
  have h2: "CHR ''/'' \<notin> set ''nothing''"
    by simp
  have none: "find (accepts demo_env) (probe_order demo_env ''nothing'') = None"
    by code_simp
  have depth: "search_depth demo_env = 2"
    by code_simp
  show ?thesis
    using find_locustfile_terminates[OF h1 h2] h1 h2 none depth by simp
qed

section \<open>The launcher\<close>

text \<open>
  What \<^verbatim>\<open>main\<close> does once the locustfile is found and loaded and the first
  positional argument names a class of the catalog.
\<close>

lemma main_bootstrap:
  assumes "\<not> show_version opts" "\<not> list_commands opts"
    "find_locustfile env (locustfile opts) = Some (Some p)" "p \<noteq> []"
    "fst (load_locustfile import p sys_path) = Inr (doc, locusts)"
    "arguments = arg0 # rest" "map_of locusts arg0 = Some cls"
  shows "main env import sys_path opts arguments slept =
    ([Print []]
      @ (if \<not> no_web opts \<and> \<not> slave opts
         then [SpawnWeb cls (hatch_rate opts) (num_clients opts)] else [])
      @ (if \<not> master opts \<and> \<not> slave opts
         then [NewLocalRunner cls (hatch_rate opts) (num_clients opts)]
              @ (if no_web opts then [StartHatching] else [])
              @ (if print_stats opts \<or> no_web opts then [SpawnPrintStats] else [])
         else if master opts
         then [NewMasterRunner cls (hatch_rate opts) (num_clients opts)
                 (redis_host opts) (redis_port opts)]
         else [NewSlaveRunner cls (hatch_rate opts) (num_clients opts)
                 (redis_host opts) (redis_port opts)])
      @ [Sleep 100000]
      @ (case slept of Interrupted \<Rightarrow> [Print [], Print ''Exiting, bye..'', Print []]
                     | Elapsed \<Rightarrow> []), Exit 0)"
  using assms by (simp add: main_def Let_def)

lemma demo_found: "find_locustfile demo_env ''tasks'' = Some (Some ''/proj/tasks.py'')"
  by code_simp

lemma demo_loaded:
  "fst (load_locustfile demo_import ''/proj/tasks.py'' [''/usr/lib''])
     = Inr (None, [(''Foo'', Foo), (''Base'', Locust)])"
  by code_simp

text \<open>
  C3, as the code has it: with both \<^verbatim>\<open>--master\<close> and \<^verbatim>\<open>--slave\<close> set, an invocation
  that gets as far as choosing the topology is not rejected. It constructs the master
  runner and nothing else (no web monitor, no local or slave runner, no stats task),
  waits, and exits with status 0.
\<close>

theorem master_and_slave_builds_master:
  assumes "master opts" "slave opts"
    "\<not> show_version opts" "\<not> list_commands opts"
    "find_locustfile env (locustfile opts) = Some (Some p)" "p \<noteq> []"
    "fst (load_locustfile import p sys_path) = Inr (doc, locusts)"
    "arguments = arg0 # rest" "map_of locusts arg0 = Some cls"
  shows "main env import sys_path opts arguments slept =
    ([Print [],
      NewMasterRunner cls (hatch_rate opts) (num_clients opts) (redis_host opts) (redis_port opts),
      Sleep 100000]
      @ (case slept of Interrupted \<Rightarrow> [Print [], Print ''Exiting, bye..'', Print []]
                     | Elapsed \<Rightarrow> []), Exit 0)"
  using main_bootstrap[OF assms(3-9), of slept] assms(1,2) by simp

theorem master_and_slave_builds_master_witness:
  "master (demo_options\<lparr>master := True, slave := True\<rparr>)
   \<and> slave (demo_options\<lparr>master := True, slave := True\<rparr>)
   \<and> \<not> show_version (demo_options\<lparr>master := True, slave := True\<rparr>)
   \<and> \<not> list_commands (demo_options\<lparr>master := True, slave := True\<rparr>)
   \<and> find_locustfile demo_env (locustfile (demo_options\<lparr>master := True, slave := True\<rparr>))
        = Some (Some ''/proj/tasks.py'')
   \<and> fst (load_locustfile demo_import ''/proj/tasks.py'' [''/usr/lib''])
        = Inr (None, [(''Foo'', Foo), (''Base'', Locust)])
   \<and> map_of [(''Foo'', Foo), (''Base'', Locust)] ''Foo'' = Some Foo
   \<and> main demo_env demo_import [''/usr/lib''] (demo_options\<lparr>master := True, slave := True\<rparr>)
        [''Foo''] Elapsed
      = ([Print [], NewMasterRunner Foo 1 1 ''localhost'' 6379, Sleep 100000], Exit 0)"
proof -
  let ?o = "demo_options\<lparr>master := True, slave := True\<rparr>"
  have f: "find_locustfile demo_env (locustfile ?o) = Some (Some ''/proj/tasks.py'')"
    using demo_found by (simp add: demo_options_def)
  have m: "map_of [(''Foo'', Foo), (''Base'', Locust)] ''Foo'' = Some Foo"
    by simp
  have "main demo_env demo_import [''/usr/lib''] ?o [''Foo''] Elapsed
      = ([Print [], NewMasterRunner Foo 1 1 ''localhost'' 6379, Sleep 100000], Exit 0)"
    using master_and_slave_builds_master[of ?o demo_env "''/proj/tasks.py''" demo_import
        "[''/usr/lib'']" None "[(''Foo'', Foo), (''Base'', Locust)]" "[''Foo'']" "''Foo''" "[]"
        Foo Elapsed] f demo_loaded m
    by (simp add: demo_options_def)
  then show ?thesis
    using f demo_loaded m by (simp add: demo_options_def)
qed

text \<open>
  C3 as stated fails: here both flags are set, no error is reported, a runner is
  constructed and the process ends with status 0.
\<close>

theorem master_and_slave_counterexample:
  "main demo_env demo_import [''/usr/lib''] (demo_options\<lparr>master := True, slave := True\<rparr>)
     [''Foo''] Interrupted
   = ([Print [], NewMasterRunner Foo 1 1 ''localhost'' 6379, Sleep 100000,
       Print [], Print ''Exiting, bye..'', Print []], Exit 0)"
  by code_simp

text \<open>
  C4, at an invocation without a positional argument (the file found and loaded, no
  \<^verbatim>\<open>--version\<close>, no \<^verbatim>\<open>--list\<close>): \<^verbatim>\<open>arguments[0]\<close> raises IndexError, which nothing
  catches; no diagnostic line is written.
\<close>

theorem main_without_argument_raises:
  "main demo_env demo_import [''/usr/lib''] demo_options [] Interrupted
     = ([Print []], Uncaught IndexError)"
  by code_simp

text \<open>The other half of C4 holds: an unknown name gives one line on stderr and status 1.\<close>

lemma main_unknown_locust:
  assumes "\<not> show_version opts" "\<not> list_commands opts"
    "find_locustfile env (locustfile opts) = Some (Some p)" "p \<noteq> []"
    "fst (load_locustfile import p sys_path) = Inr (doc, locusts)"
    "arg0 \<notin> fst ` set locusts"
  shows "main env import sys_path opts (arg0 # rest) slept
     = ([Print [], StderrWrite (''Unknown Locust: '' @ arg0 @ [CHR 0x0A])], Exit 1)"
proof -
  have "map_of locusts arg0 = None"
    using assms(6) by (simp add: map_of_eq_None_iff)
  then show ?thesis
    using assms(1-5) by (simp add: main_def Let_def)
qed

text \<open>
  C7: a standalone invocation with \<^verbatim>\<open>--no-web\<close> that gets as far as choosing the
  topology starts no web monitor, constructs the local runner, calls
  \<^verbatim>\<open>start_hatching\<close> right after, and spawns the stats printer, whatever
  \<^verbatim>\<open>--print-stats\<close> is; then it waits.
\<close>

theorem no_web_standalone_hatches_and_prints_stats:
  assumes "\<not> master opts" "\<not> slave opts" "no_web opts"
    "\<not> show_version opts" "\<not> list_commands opts"
    "find_locustfile env (locustfile opts) = Some (Some p)" "p \<noteq> []"
    "fst (load_locustfile import p sys_path) = Inr (doc, locusts)"
    "arguments = arg0 # rest" "map_of locusts arg0 = Some cls"
  shows "main env import sys_path opts arguments slept =
    ([Print [],
      NewLocalRunner cls (hatch_rate opts) (num_clients opts),
      StartHatching,
      SpawnPrintStats,
      Sleep 100000]
      @ (case slept of Interrupted \<Rightarrow> [Print [], Print ''Exiting, bye..'', Print []]
                     | Elapsed \<Rightarrow> []), Exit 0)"
  using main_bootstrap[OF assms(4-10), of slept] assms(1-3) by simp

theorem no_web_standalone_witness:
  "\<not> master (demo_options\<lparr>no_web := True\<rparr>)
   \<and> \<not> slave (demo_options\<lparr>no_web := True\<rparr>)
   \<and> no_web (demo_options\<lparr>no_web := True\<rparr>)
   \<and> \<not> print_stats (demo_options\<lparr>no_web := True\<rparr>)
   \<and> \<not> show_version (demo_options\<lparr>no_web := True\<rparr>)
   \<and> \<not> list_commands (demo_options\<lparr>no_web := True\<rparr>)
   \<and> find_locustfile demo_env (locustfile (demo_options\<lparr>no_web := True\<rparr>))
        = Some (Some ''/proj/tasks.py'')
   \<and> fst (load_locustfile demo_import ''/proj/tasks.py'' [''/usr/lib''])
        = Inr (None, [(''Foo'', Foo), (''Base'', Locust)])
   \<and> map_of [(''Foo'', Foo), (''Base'', Locust)] ''Foo'' = Some Foo
   \<and> main demo_env demo_import [''/usr/lib''] (demo_options\<lparr>no_web := True\<rparr>) [''Foo''] Elapsed
      = ([Print [], NewLocalRunner Foo 1 1, StartHatching, SpawnPrintStats, Sleep 100000], Exit 0)"
proof -
  let ?o = "demo_options\<lparr>no_web := True\<rparr>"
  have f: "find_locustfile demo_env (locustfile ?o) = Some (Some ''/proj/tasks.py'')"
    using demo_found by (simp add: demo_options_def)
  have m: "map_of [(''Foo'', Foo), (''Base'', Locust)] ''Foo'' = Some Foo"
    by simp
  have "main demo_env demo_import [''/usr/lib''] ?o [''Foo''] Elapsed
      = ([Print [], NewLocalRunner Foo 1 1, StartHatching, SpawnPrintStats, Sleep 100000], Exit 0)"
    using no_web_standalone_hatches_and_prints_stats[of ?o demo_env "''/proj/tasks.py''"
        demo_import "[''/usr/lib'']" None "[(''Foo'', Foo), (''Base'', Locust)]" "[''Foo'']"
        "''Foo''" "[]" Foo Elapsed] f demo_loaded m
    by (simp add: demo_options_def)
  then show ?thesis
    using f demo_loaded m by (simp add: demo_options_def)
qed

text \<open>
  C8, as the code has it: under every topology, an invocation that gets as far as
  constructing its runner then calls \<^verbatim>\<open>gevent.sleep(100000)\<close>, once, as its last
  act before the end; an interrupt during the sleep prints the farewell, and the
  process exits with status 0 whether the sleep was interrupted or ran out.
\<close>

theorem wait_then_exit_zero:
  assumes "\<not> show_version opts" "\<not> list_commands opts"
    "find_locustfile env (locustfile opts) = Some (Some p)" "p \<noteq> []"
    "fst (load_locustfile import p sys_path) = Inr (doc, locusts)"
    "arguments = arg0 # rest" "map_of locusts arg0 = Some cls"
  shows "snd (main env import sys_path opts arguments slept) = Exit 0
    \<and> (\<exists>before. Sleep 100000 \<notin> set before
          \<and> fst (main env import sys_path opts arguments Interrupted)
              = before @ [Sleep 100000, Print [], Print ''Exiting, bye..'', Print []]
          \<and> fst (main env import sys_path opts arguments Elapsed)
              = before @ [Sleep 100000])"
proof -
  let ?before = "[Print []]
      @ (if \<not> no_web opts \<and> \<not> slave opts
         then [SpawnWeb cls (hatch_rate opts) (num_clients opts)] else [])
      @ (if \<not> master opts \<and> \<not> slave opts
         then [NewLocalRunner cls (hatch_rate opts) (num_clients opts)]
              @ (if no_web opts then [StartHatching] else [])
              @ (if print_stats opts \<or> no_web opts then [SpawnPrintStats] else [])
         else if master opts
         then [NewMasterRunner cls (hatch_rate opts) (num_clients opts)
                 (redis_host opts) (redis_port opts)]
         else [NewSlaveRunner cls (hatch_rate opts) (num_clients opts)
                 (redis_host opts) (redis_port opts)])"
  have "Sleep 100000 \<notin> set ?before" by simp
  moreover have "fst (main env import sys_path opts arguments Interrupted)
      = ?before @ [Sleep 100000, Print [], Print ''Exiting, bye..'', Print []]"
    using main_bootstrap[OF assms, of Interrupted] by simp
  moreover have "fst (main env import sys_path opts arguments Elapsed) = ?before @ [Sleep 100000]"
    using main_bootstrap[OF assms, of Elapsed] by simp
  moreover have "snd (main env import sys_path opts arguments slept) = Exit 0"
    using main_bootstrap[OF assms, of slept] by simp
  ultimately show ?thesis by blast
qed

theorem wait_then_exit_zero_witness:
  "\<not> show_version (demo_options\<lparr>slave := True\<rparr>)
   \<and> \<not> list_commands (demo_options\<lparr>slave := True\<rparr>)
   \<and> find_locustfile demo_env (locustfile (demo_options\<lparr>slave := True\<rparr>))
        = Some (Some ''/proj/tasks.py'')
   \<and> fst (load_locustfile demo_import ''/proj/tasks.py'' [''/usr/lib''])
        = Inr (None, [(''Foo'', Foo), (''Base'', Locust)])
   \<and> map_of [(''Foo'', Foo), (''Base'', Locust)] ''Foo'' = Some Foo
   \<and> snd (main demo_env demo_import [''/usr/lib''] (demo_options\<lparr>slave := True\<rparr>)
           [''Foo''] Interrupted) = Exit 0"
proof -
  let ?o = "demo_options\<lparr>slave := True\<rparr>"
  have f: "find_locustfile demo_env (locustfile ?o) = Some (Some ''/proj/tasks.py'')"
    using demo_found by (simp add: demo_options_def)
  have m: "map_of [(''Foo'', Foo), (''Base'', Locust)] ''Foo'' = Some Foo"
    by simp
  have "snd (main demo_env demo_import [''/usr/lib''] ?o [''Foo''] Interrupted) = Exit 0"
    using wait_then_exit_zero[of ?o demo_env "''/proj/tasks.py''" demo_import "[''/usr/lib'']"
        None "[(''Foo'', Foo), (''Base'', Locust)]" "[''Foo'']" "''Foo''" "[]" Foo Interrupted]
      f demo_loaded m
    by (simp add: demo_options_def)
  then show ?thesis
    using f demo_loaded m by (simp add: demo_options_def)
qed

text \<open>
  C8 as stated fails: the wait has a limit of 100000 seconds. When they pass without
  an interrupt the sleep returns, and the process ends, with status 0 and without the
  farewell.
\<close>

theorem wait_elapses_counterexample:
  "main demo_env demo_import [''/usr/lib''] demo_options [''Foo''] Elapsed
     = ([Print [], SpawnWeb Foo 1 1, NewLocalRunner Foo 1 1, Sleep 100000], Exit 0)"
  by code_simp

text \<open>
  C9, at an invocation with \<^verbatim>\<open>--shortlist\<close>: nothing in \<^verbatim>\<open>main\<close> reads the option.
  No name is printed; the web monitor is spawned, the local runner is constructed and
  the process waits.
\<close>

theorem shortlist_is_ignored:
  "main demo_env demo_import [''/usr/lib''] (demo_options\<lparr>shortlist := True\<rparr>) [''Foo''] Interrupted
     = ([Print [], SpawnWeb Foo 1 1, NewLocalRunner Foo 1 1, Sleep 100000,
         Print [], Print ''Exiting, bye..'', Print []], Exit 0)"
  by code_simp

text \<open>The other half of C9 holds: \<^verbatim>\<open>--list\<close> prints the names and exits with status 0.\<close>

lemma main_list_commands:
  assumes "\<not> show_version opts" "list_commands opts"
    "find_locustfile env (locustfile opts) = Some (Some p)" "p \<noteq> []"
    "fst (load_locustfile import p sys_path) = Inr (doc, locusts)"
  shows "main env import sys_path opts arguments slept
     = ([Print [], Print ''Available Locusts:'']
          @ map (\<lambda>name. Print (''    '' @ name)) (map fst locusts), Exit 0)"
  using assms by (simp add: main_def Let_def)

text \<open>
  C10: with \<^verbatim>\<open>--master\<close> or \<^verbatim>\<open>--slave\<close> the stats printer is never spawned, whatever
  the other options, the arguments and the files are.
\<close>

theorem distributed_never_prints_stats:
  assumes "master opts \<or> slave opts"
  shows "SpawnPrintStats \<notin> set (fst (main env import sys_path opts arguments slept))"
  using assms
  by (auto simp: main_def Let_def
      split: option.splits sum.splits list.splits prod.splits sleep_result.splits if_splits)

theorem distributed_never_prints_stats_witness:
  "(master (demo_options\<lparr>master := True, print_stats := True\<rparr>)
      \<or> slave (demo_options\<lparr>master := True, print_stats := True\<rparr>))
   \<and> SpawnPrintStats \<notin> set (fst (main demo_env demo_import [''/usr/lib'']
         (demo_options\<lparr>master := True, print_stats := True\<rparr>) [''Foo''] Elapsed))
   \<and> fst (main demo_env demo_import [''/usr/lib'']
         (demo_options\<lparr>master := True, print_stats := True\<rparr>) [''Foo''] Elapsed)
      = [Print [], SpawnWeb Foo 1 1, NewMasterRunner Foo 1 1 ''localhost'' 6379, Sleep 100000]"
proof -
  let ?o = "demo_options\<lparr>master := True, print_stats := True\<rparr>"
  have h: "master ?o \<or> slave ?o" by simp
  have ev: "fst (main demo_env demo_import [''/usr/lib''] ?o [''Foo''] Elapsed)
      = [Print [], SpawnWeb Foo 1 1, NewMasterRunner Foo 1 1 ''localhost'' 6379, Sleep 100000]"
    by code_simp
  show ?thesis
    using h ev distributed_never_prints_stats[OF h, of demo_env demo_import "[''/usr/lib'']"
        "[''Foo'']" Elapsed]
    by simp
qed

end
